theory Spec2Isabelle
  imports Main
begin

section \<open>The scrobble cache of liblastfm (src/src/ScrobbleCache.cpp)\<close>

subsection \<open>Data the cache reads but does not own\<close>

text \<open>
  Modelled from the spec: the class \<open>Track\<close> is declared outside ScrobbleCache.cpp. The
  cache reads five attributes of a track: the artist (possibly absent), the title
  (possibly empty), the duration in seconds, the timestamp (possibly invalid) and the
  "empty/null" sentinel flag. An absent artist is \<open>None\<close>; an invalid \<open>QDateTime\<close> is
  \<open>None\<close>, a valid one is its number of milliseconds since the epoch.
\<close>

record Track =
  artist :: "string option"
  title :: string
  duration :: nat
  timestamp :: "int option"
  isNull :: bool

text \<open>The enumeration \<open>ScrobbleCachePrivate::Invalidity\<close>, in the order of its declaration.\<close>

datatype Invalidity =
  TooShort
  | ArtistNameMissing
  | TrackNameMissing
  | ArtistInvalid
  | NoTimestamp
  | FromTheFuture
  | FromTheDistantPast

text \<open>
  A node of a \<open>QDomDocument\<close>: an element with its tag, its attributes in the order they
  were set and its children in document order, or a text node.
\<close>

datatype QDomNode =
  QDomElement string "(string \<times> string) list" "QDomNode list"
  | QDomText string

fun nodeName :: "QDomNode \<Rightarrow> string" where
  "nodeName (QDomElement tag _ _) = tag"
| "nodeName (QDomText _) = ''#text''"

fun attributes :: "QDomNode \<Rightarrow> (string \<times> string) list" where
  "attributes (QDomElement _ as _) = as"
| "attributes (QDomText _) = []"

fun childNodes :: "QDomNode \<Rightarrow> QDomNode list" where
  "childNodes (QDomElement _ _ cs) = cs"
| "childNodes (QDomText _) = []"

fun setAttribute :: "QDomNode \<Rightarrow> string \<Rightarrow> string \<Rightarrow> QDomNode" where
  "setAttribute (QDomElement tag as cs) k v =
     QDomElement tag (if k \<in> fst ` set as then map (\<lambda>(k', v'). if k' = k then (k', v) else (k', v')) as
                      else as @ [(k, v)]) cs"
| "setAttribute (QDomText s) k v = QDomText s"

fun appendChild :: "QDomNode \<Rightarrow> QDomNode \<Rightarrow> QDomNode" where
  "appendChild (QDomElement tag as cs) n = QDomElement tag as (cs @ [n])"
| "appendChild (QDomText s) n = QDomText s"

text \<open>
  Everything ScrobbleCache.cpp calls but does not define is a field of the environment:
  \<^item> \<open>kScrobbleMinLength\<close>: the constant \<open>ScrobblePoint::kScrobbleMinLength\<close>;
  \<^item> \<open>currentDateTime\<close>: the clock, \<open>QDateTime::currentDateTime()\<close>;
  \<^item> \<open>addMonths\<close>: \<open>QDateTime::addMonths\<close>;
  \<^item> \<open>fromString\<close>: \<open>QDateTime::fromString(_, Qt::ISODate)\<close>;
  \<^item> \<open>track_eq\<close>: \<open>Track::operator==\<close>, with the left operand first;
  \<^item> \<open>toDomElement\<close> and \<open>fromDomElement\<close>: \<open>Track::toDomElement\<close> and the constructor
    \<open>Track(QDomElement)\<close>;
  \<^item> \<open>applicationName\<close>: \<open>QCoreApplication::applicationName()\<close>;
  \<^item> \<open>runtimeData_filePath\<close>: \<open>lastfm::dir::runtimeData().filePath(_)\<close>;
  \<^item> \<open>toString\<close>: \<open>QDomDocument::toString(indent)\<close> of the document whose only child is the
    given root element;
  \<^item> \<open>setContent\<close>: the XML parser behind \<open>QDomDocument::setContent\<close>: for a text, the
    boolean the call returns (false when the text does not parse) and the document
    element the document holds after the call (\<open>None\<close> when it holds none), whether the
    parse succeeded or not.
\<close>

record env =
  kScrobbleMinLength :: nat
  currentDateTime :: int
  addMonths :: "int \<Rightarrow> int \<Rightarrow> int"
  fromString :: "string \<Rightarrow> int"
  track_eq :: "Track \<Rightarrow> Track \<Rightarrow> bool"
  toDomElement :: "Track \<Rightarrow> QDomNode"
  fromDomElement :: "QDomNode \<Rightarrow> Track"
  applicationName :: string
  runtimeData_filePath :: "string \<Rightarrow> string"
  toString :: "QDomNode \<Rightarrow> nat \<Rightarrow> string"
  setContent :: "string \<Rightarrow> bool \<times> QDomNode option"

text \<open>\<open>QString::toLower\<close> on the ASCII letters; every other character stays.\<close>

definition toLower_char :: "char \<Rightarrow> char" where
  "toLower_char ch =
     (if (65::nat) \<le> of_char ch \<and> of_char ch \<le> (90::nat)
      then char_of (of_char ch + (32::nat)) else ch)"

definition toLower :: "string \<Rightarrow> string" where
  "toLower s = map toLower_char s"

subsection \<open>The validator\<close>

text \<open>
  \<open>ScrobbleCachePrivate::isValid\<close>. The macro \<open>TEST(test, x)\<close> stores \<open>x\<close> through the
  pointer \<open>v\<close> and returns false as soon as \<open>test\<close> holds, so the function is a chain of
  early returns. The result \<open>Some x\<close> is "returned false with \<open>*v = x\<close>", the result
  \<open>None\<close> is "returned true, \<open>*v\<close> untouched".
\<close>

definition isValid :: "env \<Rightarrow> Track \<Rightarrow> Invalidity option" where
  "isValid X track =
     (if duration track < kScrobbleMinLength X then Some TooShort
      else (case timestamp track of
        None \<Rightarrow> Some NoTimestamp
      | Some ts \<Rightarrow>
          (if ts > addMonths X (currentDateTime X) 1 then Some FromTheFuture
           else if ts < fromString X ''2003-01-01'' then Some FromTheDistantPast
           else (case artist track of
             None \<Rightarrow> Some ArtistNameMissing
           | Some name \<Rightarrow>
               (if title track = [] then Some TrackNameMissing
                else if toLower name \<in> set [''unknown artist'', ''unknown'', ''[unknown]'',
                                              ''[unknown artist]'']
                then Some ArtistInvalid
                else None)))))"

text \<open>
  The rule table of the specification (section 4.1), as a list of pairs of a condition
  and its reason in the precedence order of the text, and "first match wins".
\<close>

definition spec_rules :: "env \<Rightarrow> ((Track \<Rightarrow> bool) \<times> Invalidity) list" where
  "spec_rules X =
     [(\<lambda>t. duration t < kScrobbleMinLength X, TooShort),
      (\<lambda>t. timestamp t = None, NoTimestamp),
      (\<lambda>t. case timestamp t of None \<Rightarrow> False
             | Some ts \<Rightarrow> ts > addMonths X (currentDateTime X) 1, FromTheFuture),
      (\<lambda>t. case timestamp t of None \<Rightarrow> False
             | Some ts \<Rightarrow> ts < fromString X ''2003-01-01'', FromTheDistantPast),
      (\<lambda>t. artist t = None, ArtistNameMissing),
      (\<lambda>t. title t = [], TrackNameMissing),
      (\<lambda>t. case artist t of None \<Rightarrow> False
             | Some name \<Rightarrow> toLower name \<in> {''unknown artist'', ''unknown'', ''[unknown]'',
                                               ''[unknown artist]''}, ArtistInvalid)]"

definition first_match :: "(('a \<Rightarrow> bool) \<times> 'r) list \<Rightarrow> 'a \<Rightarrow> 'r option" where
  "first_match rules t = map_option snd (find (\<lambda>(p, r). p t) rules)"

subsection \<open>The cache, the file system and the diagnostics\<close>

text \<open>The fields of \<open>ScrobbleCachePrivate\<close>.\<close>

record ScrobbleCachePrivate =
  m_username :: string
  m_path :: string
  m_tracks :: "Track list"

text \<open>
  What the cache does to the outside is kept in a trace: a line on \<open>qWarning()\<close> or
  \<open>qDebug()\<close>, the removal of a file and the writing of a file, in the order they happen.
  The file system maps a path to the text of the file there. Opening for writing,
  writing and removing always succeed in this model; failing input and output is
  outside it.
\<close>

datatype event =
  QWarning Invalidity
  | QDebug string
  | FileRemoved string
  | FileWritten string string

record world =
  files :: "string \<rightharpoonup> string"
  trace :: "event list"

fun is_save :: "event \<Rightarrow> bool" where
  "is_save (FileRemoved _) = True"
| "is_save (FileWritten _ _) = True"
| "is_save _ = False"

subsection \<open>Persistence\<close>

text \<open>The first line \<open>write\<close> sends to the stream: the XML declaration and a newline.\<close>

definition xml_declaration :: string where
  "xml_declaration =
     ''<?xml version='' @ [CHR 0x27] @ ''1.0'' @ [CHR 0x27] @ '' encoding='' @ [CHR 0x27]
       @ ''utf-8'' @ [CHR 0x27] @ ''?>'' @ [CHR 0x0A]"

text \<open>
  The element \<open>e\<close> that \<open>write\<close> builds: created with the tag "submissions", given the
  attributes "product" and "version", then one child appended per track of the list,
  in the order of the \<open>foreach\<close>.
\<close>

definition submissions :: "env \<Rightarrow> Track list \<Rightarrow> QDomNode" where
  "submissions X tracks =
     (let e0 = QDomElement ''submissions'' [] [];
          e1 = setAttribute e0 ''product'' (applicationName X);
          e2 = setAttribute e1 ''version'' ''2''
      in foldl (\<lambda>e i. appendChild e (toDomElement X i)) e2 tracks)"

text \<open>
  \<open>ScrobbleCachePrivate::write\<close>, here \<open>write_tracks\<close> (Isabelle reserves the word
  \<open>write\<close>): an empty list removes the file at \<open>m_path\<close>
  (\<open>QFile::remove\<close>, whose result is dropped, so a missing file is no error); any other
  list replaces the file by the declaration followed by \<open>xml.toString(2)\<close>.
\<close>

definition write_tracks :: "env \<Rightarrow> ScrobbleCachePrivate \<Rightarrow> world \<Rightarrow> world" where
  "write_tracks X d w =
     (if m_tracks d = []
      then w\<lparr>files := (files w)(m_path d := None),
             trace := trace w @ [FileRemoved (m_path d)]\<rparr>
      else (let text = xml_declaration @ toString X (submissions X (m_tracks d)) 2
            in w\<lparr>files := (files w)(m_path d \<mapsto> text),
                  trace := trace w @ [FileWritten (m_path d) text]\<rparr>))"

text \<open>
  \<open>QDomDocument::setContent\<close>, called on the fresh document of \<open>read\<close>: the boolean it
  returns and the document element the document holds afterwards, both as the parser of
  the environment gives them. One text is settled here: the empty text, which is what
  \<open>readAll\<close> gives for a file that could not be opened, holds no element, so the call
  returns false and the document stays without a document element.
\<close>

definition QDomDocument_setContent :: "env \<Rightarrow> string \<Rightarrow> bool \<times> QDomNode option" where
  "QDomDocument_setContent X text = (if text = [] then (False, None) else setContent X text)"

text \<open>
  The loop of \<open>read\<close> over the children of the document element, from \<open>firstChild()\<close>
  along \<open>nextSibling()\<close>: a child named "track" is turned into a track and appended.
\<close>

fun read_nodes :: "env \<Rightarrow> QDomNode list \<Rightarrow> Track list \<Rightarrow> Track list" where
  "read_nodes X [] tracks = tracks"
| "read_nodes X (n # ns) tracks =
     read_nodes X ns (if nodeName n = ''track'' then tracks @ [fromDomElement X n] else tracks)"

text \<open>
  \<open>ScrobbleCachePrivate::read\<close>: clears \<open>m_tracks\<close>, reads the whole file at \<open>m_path\<close> (the
  result of \<open>open\<close> is dropped: a file that is not there reads as the empty text), calls
  \<open>setContent\<close> and drops its boolean, and walks the children of the document element the
  document then holds (none when it holds no document element).
\<close>

definition read :: "env \<Rightarrow> ScrobbleCachePrivate \<Rightarrow> world \<Rightarrow> ScrobbleCachePrivate" where
  "read X d w =
     (let text = (case files w (m_path d) of None \<Rightarrow> [] | Some s \<Rightarrow> s);
          xml = snd (QDomDocument_setContent X text);
          nodes = (case xml of None \<Rightarrow> [] | Some root \<Rightarrow> childNodes root)
      in d\<lparr>m_tracks := read_nodes X nodes []\<rparr>)"

subsection \<open>Construction\<close>

datatype error = AssertionFailure

text \<open>
  The constructor \<open>ScrobbleCache(username)\<close>: \<open>Q_ASSERT(username.length())\<close> stops the
  program on an empty name; otherwise the path and the name are set and the file is
  read.
\<close>

definition ScrobbleCache :: "env \<Rightarrow> string \<Rightarrow> world \<Rightarrow> error + ScrobbleCachePrivate" where
  "ScrobbleCache X username w =
     (if length username = 0 then Inl AssertionFailure
      else Inr (read X
             \<lparr>m_username = username,
              m_path = runtimeData_filePath X (username @ ''_subs_cache.xml''),
              m_tracks = []\<rparr> w))"

subsection \<open>Adding\<close>

text \<open>
  The body of the \<open>foreach\<close> of \<open>add\<close> for one track: an invalid track is reported on
  \<open>qWarning()\<close>, a valid null track on \<open>qDebug()\<close>, any other track is appended.
\<close>

definition add_track ::
  "env \<Rightarrow> ScrobbleCachePrivate \<times> world \<Rightarrow> Track \<Rightarrow> ScrobbleCachePrivate \<times> world" where
  "add_track X s track =
     (case s of (d, w) \<Rightarrow>
        (case isValid X track of
           Some invalidity \<Rightarrow> (d, w\<lparr>trace := trace w @ [QWarning invalidity]\<rparr>)
         | None \<Rightarrow>
             (if isNull track
              then (d, w\<lparr>trace := trace w @ [QDebug ''Will not cache an empty track'']\<rparr>)
              else (d\<lparr>m_tracks := m_tracks d @ [track]\<rparr>, w))))"

text \<open>\<open>ScrobbleCache::add\<close>: the loop over the candidates, then one call of \<open>write\<close>.\<close>

definition add ::
  "env \<Rightarrow> Track list \<Rightarrow> ScrobbleCachePrivate \<Rightarrow> world \<Rightarrow> ScrobbleCachePrivate \<times> world" where
  "add X tracks d w =
     (case foldl (add_track X) (d, w) tracks of (d', w') \<Rightarrow> (d', write_tracks X d' w'))"

text \<open>
  What section 4.2 of the specification says \<open>add\<close> reports: per candidate, in input
  order, the reason of an invalid one, a separate line for a valid null one, and nothing
  for one that is stored.
\<close>

definition diagnostics :: "env \<Rightarrow> Track list \<Rightarrow> event list" where
  "diagnostics X candidates =
     concat (map (\<lambda>t. case isValid X t of
                         Some reason \<Rightarrow> [QWarning reason]
                       | None \<Rightarrow> (if isNull t then [QDebug ''Will not cache an empty track'']
                                  else [])) candidates)"

subsection \<open>Removing\<close>

text \<open>
  Modelled from the spec: \<open>QMutableListIterator\<close> belongs to Qt. It holds the list \<open>c\<close>, the
  position \<open>i\<close> of the next item and the position \<open>n\<close> of the item last jumped over, where
  the position past the last item stands for "none". \<open>next()\<close> is \<open>n = i++; return *n\<close>,
  here the item it returns (\<open>next_value\<close>) and the iterator after it (\<open>next_step\<close>);
  \<open>remove()\<close> does nothing when \<open>n\<close> is the end, and otherwise erases the item at \<open>n\<close>,
  moves \<open>i\<close> to the item after it and sets \<open>n\<close> to the end. The position \<open>i\<close> never
  passes the end, so \<open>hasNext()\<close>, which is \<open>i != end\<close>, is \<open>i < length c\<close>.
\<close>

record 'a QMutableListIterator =
  it_c :: "'a list"
  it_i :: nat
  it_n :: nat

definition QMutableListIterator :: "'a list \<Rightarrow> 'a QMutableListIterator" where
  "QMutableListIterator xs = \<lparr>it_c = xs, it_i = 0, it_n = length xs\<rparr>"

definition hasNext :: "'a QMutableListIterator \<Rightarrow> bool" where
  "hasNext it = (it_i it < length (it_c it))"

definition next_value :: "'a QMutableListIterator \<Rightarrow> 'a" where
  "next_value it = it_c it ! it_i it"

definition next_step :: "'a QMutableListIterator \<Rightarrow> 'a QMutableListIterator" where
  "next_step it = it\<lparr>it_n := it_i it, it_i := Suc (it_i it)\<rparr>"

definition it_remove :: "'a QMutableListIterator \<Rightarrow> 'a QMutableListIterator" where
  "it_remove it =
     (if it_n it \<noteq> length (it_c it)
      then (let c' = take (it_n it) (it_c it) @ drop (Suc (it_n it)) (it_c it)
            in \<lparr>it_c = c', it_i = it_n it, it_n = length c'\<rparr>)
      else it)"

text \<open>
  The inner loop of \<open>remove\<close>, \<open>for (x = 0; x < toremove.count(); ++x)\<close>: every entry of
  \<open>toremove\<close> that equals \<open>t\<close> calls \<open>i.remove()\<close>.
\<close>

fun remove_matches ::
  "('a \<Rightarrow> 'a \<Rightarrow> bool) \<Rightarrow> 'a \<Rightarrow> 'a list \<Rightarrow> 'a QMutableListIterator \<Rightarrow> 'a QMutableListIterator"
  where
  "remove_matches eq t [] it = it"
| "remove_matches eq t (x # xs) it =
     remove_matches eq t xs (if eq x t then it_remove it else it)"

text \<open>The outer loop, \<open>while (i.hasNext()) { Track t = i.next(); ... }\<close>.\<close>

function remove_loop ::
  "('a \<Rightarrow> 'a \<Rightarrow> bool) \<Rightarrow> 'a list \<Rightarrow> 'a QMutableListIterator \<Rightarrow> 'a QMutableListIterator"
  where
  "remove_loop eq toremove it =
     (if hasNext it
      then remove_loop eq toremove (remove_matches eq (next_value it) toremove (next_step it))
      else it)"
  by pat_completeness auto
termination
proof (relation "measure (\<lambda>(eq, toremove, it). length (it_c it) - it_i it)")
  show "wf (measure (\<lambda>(eq, toremove, it). length (it_c it) - it_i it))"
    by simp
next
  fix eq :: "'a \<Rightarrow> 'a \<Rightarrow> bool" and toremove :: "'a list" and it :: "'a QMutableListIterator"
  assume h: "hasNext it"
  have step: "length (it_c (remove_matches eq t xs j)) - it_i (remove_matches eq t xs j)
                = length (it_c j) - it_i j"
    if "it_n j = length (it_c j) \<or> (it_n j < length (it_c j) \<and> it_i j = Suc (it_n j))"
    for t xs and j :: "'a QMutableListIterator"
    using that
  proof (induction xs arbitrary: j)
    case Nil
    then show ?case by simp
  next
    case (Cons x xs)
    show ?case
    proof (cases "eq x t \<and> it_n j \<noteq> length (it_c j)")
      case True
      with Cons.prems have b: "it_n j < length (it_c j)" "it_i j = Suc (it_n j)"
        by auto
      have "length (it_c (remove_matches eq t xs (it_remove j)))
              - it_i (remove_matches eq t xs (it_remove j))
            = length (it_c (it_remove j)) - it_i (it_remove j)"
        by (rule Cons.IH) (simp add: it_remove_def Let_def)
      also have "\<dots> = length (it_c j) - it_i j"
        using b by (simp add: it_remove_def Let_def)
      finally show ?thesis using True by simp
    next
      case False
      then have "remove_matches eq t (x # xs) j = remove_matches eq t xs j"
        by (auto simp: it_remove_def)
      then show ?thesis using Cons.IH [OF Cons.prems] by simp
    qed
  qed
  have "length (it_c (remove_matches eq (next_value it) toremove (next_step it)))
          - it_i (remove_matches eq (next_value it) toremove (next_step it))
        = length (it_c (next_step it)) - it_i (next_step it)"
    using h by (intro step) (simp add: next_step_def hasNext_def)
  then show "((eq, toremove, remove_matches eq (next_value it) toremove (next_step it)),
              (eq, toremove, it))
             \<in> measure (\<lambda>(eq, toremove, it). length (it_c it) - it_i it)"
    using h by (simp add: next_step_def hasNext_def)
qed

text \<open>
  \<open>ScrobbleCache::remove\<close>: the iterator runs over \<open>m_tracks\<close> itself, then \<open>write\<close>, then
  the count of \<open>m_tracks\<close> is returned.
\<close>

definition remove ::
  "env \<Rightarrow> Track list \<Rightarrow> ScrobbleCachePrivate \<Rightarrow> world \<Rightarrow> int \<times> ScrobbleCachePrivate \<times> world"
  where
  "remove X toremove d w =
     (let it = remove_loop (track_eq X) toremove (QMutableListIterator (m_tracks d));
          d' = d\<lparr>m_tracks := it_c it\<rparr>
      in (int (length (m_tracks d')), d', write_tracks X d' w))"

text \<open>The accessors \<open>tracks()\<close>, \<open>path()\<close> and \<open>username()\<close> return the fields.\<close>

definition tracks :: "ScrobbleCachePrivate \<Rightarrow> Track list" where
  "tracks d = m_tracks d"

definition path :: "ScrobbleCachePrivate \<Rightarrow> string" where
  "path d = m_path d"

definition username :: "ScrobbleCachePrivate \<Rightarrow> string" where
  "username d = m_username d"

subsection \<open>A sample environment and sample tracks\<close>

text \<open>
  A concrete environment for evaluating the model. Its printer \<open>render\<close> writes a
  document without indentation: a start tag with its attributes, the children, the end
  tag.
\<close>

fun render :: "QDomNode \<Rightarrow> string" where
  "render (QDomText s) = s"
| "render (QDomElement tag as cs) =
     ''<'' @ tag @ concat (map (\<lambda>(k, v). '' '' @ k @ ''='' @ [CHR 0x22] @ v @ [CHR 0x22]) as)
       @ ''>'' @ concat (map render cs) @ ''</'' @ tag @ ''>''"

text \<open>
  Its parser reads what the printer writes. \<open>scan\<close> cuts the text into tags and the texts
  between them; \<open>build\<close> grows the tree tag by tag, on a stack of the elements that are
  still open, each with the children it has so far. When the text ends, or goes wrong,
  with elements still open, the parse fails and the document keeps the tree as far as it
  was built (\<open>collapse\<close>), the way a parser does that hangs every element into the
  document as soon as its start tag is read.
\<close>

datatype token =
  TOpen string "(string \<times> string) list"
  | TClose string
  | TText string
  | TDecl

fun split_words :: "string \<Rightarrow> string \<Rightarrow> string list" where
  "split_words [] cur = (if cur = [] then [] else [cur])"
| "split_words (c # cs) cur =
     (if c = CHR '' '' then (if cur = [] then split_words cs [] else cur # split_words cs [])
      else split_words cs (cur @ [c]))"

definition attribute :: "string \<Rightarrow> string \<times> string" where
  "attribute w =
     (takeWhile (\<lambda>c. c \<noteq> CHR ''='') w,
      filter (\<lambda>c. c \<noteq> CHR 0x22) (drop 1 (dropWhile (\<lambda>c. c \<noteq> CHR ''='') w)))"

definition tag_token :: "string \<Rightarrow> token" where
  "tag_token buf =
     (case buf of
        [] \<Rightarrow> TOpen [] []
      | c # cs \<Rightarrow>
          (if c = CHR ''/'' then TClose cs
           else if c = CHR ''?'' then TDecl
           else (case split_words buf [] of
                   [] \<Rightarrow> TOpen [] []
                 | n # ws \<Rightarrow> TOpen n (map attribute ws))))"

fun scan :: "string \<Rightarrow> bool \<Rightarrow> string \<Rightarrow> token list \<times> bool" where
  "scan [] inTag buf =
     (if inTag then ([], False) else (if buf = [] then [] else [TText buf], True))"
| "scan (c # cs) inTag buf =
     (if inTag
      then (if c = CHR ''>''
            then (case scan cs False [] of (ts, ok) \<Rightarrow> (tag_token buf # ts, ok))
            else scan cs True (buf @ [c]))
      else (if c = CHR ''<''
            then (case scan cs True [] of
                    (ts, ok) \<Rightarrow> ((if buf = [] then ts else TText buf # ts), ok))
            else scan cs False (buf @ [c])))"

fun collapse ::
  "(string \<times> (string \<times> string) list \<times> QDomNode list) list \<Rightarrow> QDomNode option" where
  "collapse [] = None"
| "collapse [(tg, as, cs)] = Some (QDomElement tg as cs)"
| "collapse ((tg, as, cs) # (tg', as', cs') # st) =
     collapse ((tg', as', cs' @ [QDomElement tg as cs]) # st)"

fun build ::
  "token list \<Rightarrow> (string \<times> (string \<times> string) list \<times> QDomNode list) list
     \<Rightarrow> QDomNode option \<Rightarrow> bool \<times> QDomNode option" where
  "build [] st root = (if st = [] then (root \<noteq> None, root) else (False, collapse st))"
| "build (TDecl # ts) st root = build ts st root"
| "build (TText s # ts) st root =
     (case st of
        [] \<Rightarrow> build ts st root
      | (tg, as, cs) # st' \<Rightarrow> build ts ((tg, as, cs @ [QDomText s]) # st') root)"
| "build (TOpen n as # ts) st root =
     (if st = [] \<and> root \<noteq> None then (False, root) else build ts ((n, as, []) # st) root)"
| "build (TClose n # ts) st root =
     (case st of
        [] \<Rightarrow> (False, root)
      | (tg, as, cs) # st' \<Rightarrow>
          (if tg \<noteq> n then (False, collapse st)
           else (case st' of
                   [] \<Rightarrow> build ts [] (Some (QDomElement tg as cs))
                 | (tg', as', cs') # st'' \<Rightarrow>
                     build ts ((tg', as', cs' @ [QDomElement tg as cs]) # st'') root)))"

definition sample_parse :: "string \<Rightarrow> bool \<times> QDomNode option" where
  "sample_parse s =
     (case scan s False [] of
        (ts, ok) \<Rightarrow> (case build ts [] None of (ok', doc) \<Rightarrow> (ok \<and> ok', doc)))"

text \<open>
  Its tracks last 200 seconds and were played at 1 100 000 000 000 ms; its serialiser
  writes the artist and the title of a track into two child elements and reads them
  back.
\<close>

definition sample_track :: "string \<Rightarrow> string \<Rightarrow> Track" where
  "sample_track a ti =
     \<lparr>artist = Some a, title = ti, duration = 200, timestamp = Some 1100000000000,
      isNull = False\<rparr>"

definition sample_toDomElement :: "string \<Rightarrow> Track \<Rightarrow> QDomNode" where
  "sample_toDomElement tag t =
     QDomElement tag []
       [QDomElement ''artist'' [] [QDomText (case artist t of None \<Rightarrow> [] | Some a \<Rightarrow> a)],
        QDomElement ''title'' [] [QDomText (title t)]]"

fun sample_fromDomElement :: "QDomNode \<Rightarrow> Track" where
  "sample_fromDomElement
     (QDomElement tag as [QDomElement ta aas [QDomText a], QDomElement tt tas [QDomText ti]])
     = sample_track a ti"
| "sample_fromDomElement n = sample_track [] []"

text \<open>
  The rest: a minimum length of 31 seconds, a clock at 1 200 000 000 000 ms, months of
  thirty days, the floor 2003-01-01 at 1 041 379 200 000 ms, and equality of tracks as
  equality of all attributes.
\<close>

definition sample_env :: env where
  "sample_env =
     \<lparr>kScrobbleMinLength = 31,
      currentDateTime = 1200000000000,
      addMonths = (\<lambda>t k. t + k * 2592000000),
      fromString = (\<lambda>s. if s = ''2003-01-01'' then 1041379200000 else 0),
      track_eq = (\<lambda>a b. a = b),
      toDomElement = sample_toDomElement ''track'',
      fromDomElement = sample_fromDomElement,
      applicationName = ''app'',
      runtimeData_filePath = (\<lambda>f. ''/data/'' @ f),
      toString = (\<lambda>e k. render e),
      setContent = sample_parse\<rparr>"

definition trackA :: Track where
  "trackA = sample_track ''Artist A'' ''Song A''"

definition trackB :: Track where
  "trackB = sample_track ''Artist B'' ''Song B''"

definition trackC :: Track where
  "trackC = sample_track ''Artist C'' ''Song C''"

definition sample_cache :: "Track list \<Rightarrow> ScrobbleCachePrivate" where
  "sample_cache ts =
     \<lparr>m_username = ''alice'', m_path = ''/data/alice_subs_cache.xml'', m_tracks = ts\<rparr>"

definition empty_world :: world where
  "empty_world = \<lparr>files = Map.empty, trace = []\<rparr>"

text \<open>
  The texts the sample printer gives for the lists \<open>[trackA, trackB]\<close> and \<open>[trackA]\<close>,
  and the second of them cut off before the end tag of its root.
\<close>

definition submissions_tag :: string where
  "submissions_tag =
     ''<submissions product='' @ [CHR 0x22] @ ''app'' @ [CHR 0x22]
       @ '' version='' @ [CHR 0x22] @ ''2'' @ [CHR 0x22] @ ''>''"

definition fileAB :: string where
  "fileAB = xml_declaration @ submissions_tag
     @ ''<track><artist>Artist A</artist><title>Song A</title></track>''
     @ ''<track><artist>Artist B</artist><title>Song B</title></track>''
     @ ''</submissions>''"

definition fileA :: string where
  "fileA = xml_declaration @ submissions_tag
     @ ''<track><artist>Artist A</artist><title>Song A</title></track>''
     @ ''</submissions>''"

definition fileA_cut :: string where
  "fileA_cut = xml_declaration @ submissions_tag
     @ ''<track><artist>Artist A</artist><title>Song A</title></track>''"

text \<open>
  Three variants of the sample environment, each with one collaborator that does not
  keep its side of the round trip: a parser that rejects every text, a serialiser whose
  element is named "song", and a deserialiser that gives the same track for every
  element.
\<close>

definition sample_env_rejecting :: env where
  "sample_env_rejecting = sample_env\<lparr>setContent := (\<lambda>s. (False, None))\<rparr>"

definition sample_env_song :: env where
  "sample_env_song = sample_env\<lparr>toDomElement := sample_toDomElement ''song''\<rparr>"

definition sample_env_lossy :: env where
  "sample_env_lossy = sample_env\<lparr>fromDomElement := (\<lambda>n. trackC)\<rparr>"

section \<open>Theorems\<close>

subsection \<open>Helper facts\<close>

text \<open>
  The validator is the rule table of the specification read with "first match wins".
\<close>

lemma isValid_first_match: "isValid X t = first_match (spec_rules X) t"
  by (simp add: isValid_def first_match_def spec_rules_def split: option.splits)

text \<open>
  The loops of \<open>remove\<close>. Once \<open>remove()\<close> has been called after a \<open>next()\<close>, the
  position \<open>n\<close> is the end and every further \<open>remove()\<close> does nothing, so the inner loop
  erases the current item once if some target equals it and not at all otherwise. The
  outer loop then leaves, of the items from \<open>i\<close> on, those that equal no target.
\<close>

lemma remove_matches_end:
  "it_n j = length (it_c j) \<Longrightarrow> remove_matches eq t xs j = j"
  by (induction xs arbitrary: j) (simp_all add: it_remove_def)

lemma remove_matches_once:
  "it_n j < length (it_c j) \<Longrightarrow>
   remove_matches eq t xs j = (if \<exists>x\<in>set xs. eq x t then it_remove j else j)"
proof (induction xs)
  case Nil
  then show ?case by simp
next
  case (Cons x xs)
  show ?case
  proof (cases "eq x t")
    case True
    have "it_n (it_remove j) = length (it_c (it_remove j))"
      using Cons.prems by (simp add: it_remove_def Let_def)
    then have "remove_matches eq t xs (it_remove j) = it_remove j"
      by (rule remove_matches_end)
    then show ?thesis using True by simp
  next
    case False
    then show ?thesis using Cons by simp
  qed
qed

lemma remove_loop_filter:
  "it_i it \<le> length (it_c it) \<Longrightarrow>
   it_c (remove_loop eq toremove it) =
     take (it_i it) (it_c it) @ filter (\<lambda>t. \<not> (\<exists>x\<in>set toremove. eq x t)) (drop (it_i it) (it_c it))"
proof (induction eq toremove it rule: remove_loop.induct)
  case (1 eq toremove it)
  show ?case
  proof (cases "hasNext it")
    case False
    then show ?thesis using "1.prems" by (simp add: hasNext_def)
  next
    case True
    then have lt: "it_i it < length (it_c it)" by (simp add: hasNext_def)
    let ?t = "next_value it"
    let ?j = "remove_matches eq ?t toremove (next_step it)"
    have j: "?j = (if \<exists>x\<in>set toremove. eq x ?t then it_remove (next_step it) else next_step it)"
      using lt by (intro remove_matches_once) (simp add: next_step_def)
    have dr: "drop (it_i it) (it_c it) = ?t # drop (Suc (it_i it)) (it_c it)"
      using lt by (simp add: next_value_def Cons_nth_drop_Suc)
    show ?thesis
    proof (cases "\<exists>x\<in>set toremove. eq x ?t")
      case m: True
      have c': "it_c ?j = take (it_i it) (it_c it) @ drop (Suc (it_i it)) (it_c it)"
        and i': "it_i ?j = it_i it"
        using m lt j by (simp_all add: it_remove_def next_step_def Let_def)
      have "it_c (remove_loop eq toremove ?j)
            = take (it_i ?j) (it_c ?j) @ filter (\<lambda>t. \<not> (\<exists>x\<in>set toremove. eq x t)) (drop (it_i ?j) (it_c ?j))"
        using lt by (intro "1.IH" True) (simp add: c' i')
      also have "\<dots> = take (it_i it) (it_c it) @ filter (\<lambda>t. \<not> (\<exists>x\<in>set toremove. eq x t)) (drop (Suc (it_i it)) (it_c it))"
        unfolding c' i' using lt by simp
      finally show ?thesis using True m dr by simp
    next
      case m: False
      have c': "it_c ?j = it_c it" and i': "it_i ?j = Suc (it_i it)"
        using m j by (simp_all add: next_step_def)
      have "it_c (remove_loop eq toremove ?j)
            = take (it_i ?j) (it_c ?j) @ filter (\<lambda>t. \<not> (\<exists>x\<in>set toremove. eq x t)) (drop (it_i ?j) (it_c ?j))"
        using lt by (intro "1.IH" True) (simp add: c' i')
      also have "\<dots> = take (it_i it) (it_c it) @ ?t # filter (\<lambda>t. \<not> (\<exists>x\<in>set toremove. eq x t)) (drop (Suc (it_i it)) (it_c it))"
        unfolding c' i' using lt by (simp add: take_Suc_conv_app_nth next_value_def)
      finally show ?thesis using True m dr by simp
    qed
  qed
qed


lemma remove_eq:
  "remove X toremove d w =
     (int (length (filter (\<lambda>t. \<not> (\<exists>x\<in>set toremove. track_eq X x t)) (m_tracks d))),
      d\<lparr>m_tracks := filter (\<lambda>t. \<not> (\<exists>x\<in>set toremove. track_eq X x t)) (m_tracks d)\<rparr>,
      write_tracks X (d\<lparr>m_tracks := filter (\<lambda>t. \<not> (\<exists>x\<in>set toremove. track_eq X x t)) (m_tracks d)\<rparr>) w)"
proof -
  have "it_c (remove_loop (track_eq X) toremove (QMutableListIterator (m_tracks d)))
        = filter (\<lambda>t. \<not> (\<exists>x\<in>set toremove. track_eq X x t)) (m_tracks d)"
    using remove_loop_filter [of "QMutableListIterator (m_tracks d)" "track_eq X" toremove]
    by (simp add: QMutableListIterator_def)
  then show ?thesis by (simp add: remove_def Let_def)
qed

text \<open>
  \<open>add\<close>, one candidate at a time, and as a whole.
\<close>

lemma add_track_simps:
  "add_track X (d, w) t =
     (case isValid X t of
        Some reason \<Rightarrow> (d, w\<lparr>trace := trace w @ [QWarning reason]\<rparr>)
      | None \<Rightarrow> (if isNull t
                 then (d, w\<lparr>trace := trace w @ [QDebug ''Will not cache an empty track'']\<rparr>)
                 else (d\<lparr>m_tracks := m_tracks d @ [t]\<rparr>, w)))"
  by (simp add: add_track_def)

lemma diagnostics_Nil: "diagnostics X [] = []"
  by (simp add: diagnostics_def)

lemma diagnostics_Cons:
  "diagnostics X (t # ts) =
     (case isValid X t of
        Some reason \<Rightarrow> [QWarning reason]
      | None \<Rightarrow> (if isNull t then [QDebug ''Will not cache an empty track''] else []))
     @ diagnostics X ts"
  by (simp add: diagnostics_def)

lemma foldl_add_track:
  "foldl (add_track X) (d, w) ts =
     (d\<lparr>m_tracks := m_tracks d @ filter (\<lambda>t. isValid X t = None \<and> \<not> isNull t) ts\<rparr>,
      w\<lparr>trace := trace w @ diagnostics X ts\<rparr>)"
proof (induction ts arbitrary: d w)
  case Nil
  then show ?case by (simp add: diagnostics_Nil)
next
  case (Cons t ts)
  show ?case
    by (cases "isValid X t") (simp_all add: add_track_simps Cons.IH diagnostics_Cons)
qed

lemma diagnostics_no_save: "filter is_save (diagnostics X ts) = []"
  by (induction ts) (auto simp: diagnostics_Nil diagnostics_Cons split: option.splits)

lemma write_tracks_trace:
  "filter is_save (trace (write_tracks X d w)) = filter is_save (trace w) @
     [if m_tracks d = [] then FileRemoved (m_path d)
      else FileWritten (m_path d) (xml_declaration @ toString X (submissions X (m_tracks d)) 2)]"
  by (simp add: write_tracks_def Let_def)

lemma add_eq:
  "add X candidates d w =
     (d\<lparr>m_tracks := m_tracks d @ filter (\<lambda>t. isValid X t = None \<and> \<not> isNull t) candidates\<rparr>,
      write_tracks X
        (d\<lparr>m_tracks := m_tracks d @ filter (\<lambda>t. isValid X t = None \<and> \<not> isNull t) candidates\<rparr>)
        (w\<lparr>trace := trace w @ diagnostics X candidates\<rparr>))"
  by (simp add: add_def foldl_add_track)

text \<open>
  The document \<open>write_tracks\<close> builds, and what \<open>read\<close> makes of a file.
\<close>

lemma foldl_appendChild:
  "foldl (\<lambda>e i. appendChild e (f i)) (QDomElement tag as cs) ts
     = QDomElement tag as (cs @ map f ts)"
  by (induction ts arbitrary: cs) simp_all

lemma submissions_eq:
  "submissions X ts =
     QDomElement ''submissions'' [(''product'', applicationName X), (''version'', ''2'')]
       (map (toDomElement X) ts)"
  by (simp add: submissions_def foldl_appendChild)

lemma read_nodes_eq:
  "read_nodes X ns acc
     = acc @ map (fromDomElement X) (filter (\<lambda>n. nodeName n = ''track'') ns)"
  by (induction ns arbitrary: acc) simp_all

lemma read_fields: "m_path (read X d w) = m_path d \<and> m_username (read X d w) = m_username d"
  by (simp add: read_def Let_def)

lemma read_absent: "files w (m_path d) = None \<Longrightarrow> read X d w = d\<lparr>m_tracks := []\<rparr>"
  by (simp add: read_def QDomDocument_setContent_def)


lemma read_parsed:
  "files w (m_path d) = Some s \<Longrightarrow> s \<noteq> [] \<Longrightarrow> snd (setContent X s) = Some root \<Longrightarrow>
   read X d w
     = d\<lparr>m_tracks := map (fromDomElement X) (filter (\<lambda>n. nodeName n = ''track'') (childNodes root))\<rparr>"
  by (simp add: read_def QDomDocument_setContent_def read_nodes_eq)

lemma write_tracks_files:
  "files (write_tracks X d w) =
     (if m_tracks d = [] then (files w)(m_path d := None)
      else (files w)(m_path d \<mapsto> xml_declaration @ toString X (submissions X (m_tracks d)) 2))"
  by (simp add: write_tracks_def Let_def)

lemma xml_declaration_not_empty: "xml_declaration @ s \<noteq> []"
  by (simp add: xml_declaration_def)

lemma read_write_tracks:
  assumes parse: "m_tracks d \<noteq> [] \<Longrightarrow>
      snd (setContent X (xml_declaration @ toString X (submissions X (m_tracks d)) 2))
        = Some (submissions X (m_tracks d))"
    and rt: "\<forall>t\<in>set (m_tracks d). fromDomElement X (toDomElement X t) = t"
    and tag: "\<forall>t\<in>set (m_tracks d). nodeName (toDomElement X t) = ''track''"
  shows "read X d (write_tracks X d w) = d"
proof (cases "m_tracks d = []")
  case True
  then have "files (write_tracks X d w) (m_path d) = None"
    by (simp add: write_tracks_files)
  then have "read X d (write_tracks X d w) = d\<lparr>m_tracks := []\<rparr>"
    by (rule read_absent)
  then show ?thesis using True by simp
next
  case False
  let ?text = "xml_declaration @ toString X (submissions X (m_tracks d)) 2"
  have f: "files (write_tracks X d w) (m_path d) = Some ?text"
    using False by (simp add: write_tracks_files)
  have "read X d (write_tracks X d w)
        = d\<lparr>m_tracks := map (fromDomElement X)
             (filter (\<lambda>n. nodeName n = ''track'') (childNodes (submissions X (m_tracks d))))\<rparr>"
    using f xml_declaration_not_empty parse [OF False] by (rule read_parsed)
  moreover have "filter (\<lambda>n. nodeName n = ''track'') (map (toDomElement X) (m_tracks d))
                 = map (toDomElement X) (m_tracks d)"
    using tag by (simp add: filter_id_conv)
  moreover have "map (fromDomElement X) (map (toDomElement X) (m_tracks d)) = m_tracks d"
    using rt by (simp add: map_idI)
  ultimately show ?thesis by (simp add: submissions_eq)
qed

text \<open>
  The sample environment: the three sample tracks are valid and differ.
\<close>

lemmas samples = sample_env_def sample_env_rejecting_def sample_env_song_def
  sample_env_lossy_def sample_toDomElement_def sample_track_def trackA_def trackB_def
  trackC_def sample_cache_def empty_world_def fileAB_def fileA_def fileA_cut_def
  submissions_tag_def sample_parse_def tag_token_def attribute_def xml_declaration_def

lemma sample_tracks_valid:
  "isValid sample_env trackA = None \<and> isValid sample_env trackB = None
   \<and> isValid sample_env trackC = None"
  by (simp add: isValid_def samples toLower_def toLower_char_def)

subsection \<open>The validator\<close>

text \<open>
  Claim C3. \<open>isValid\<close> gives at most one reason, the first that matches in the order
  TooShort, NoTimestamp, FromTheFuture, FromTheDistantPast, ArtistNameMissing,
  TrackNameMissing, ArtistInvalid. A track shorter than the minimum is TooShort whatever
  its timestamp; a track without a valid timestamp, a track dated after the clock plus one
  month and a track dated before 2003-01-01 are each rejected, with the reason
  NoTimestamp, FromTheFuture and FromTheDistantPast when no earlier rule of the order
  matches.
\<close>

theorem isValid_precedence:
  "isValid X t = first_match (spec_rules X) t
   \<and> (duration t < kScrobbleMinLength X \<longrightarrow> isValid X t = Some TooShort)
   \<and> (timestamp t = None \<longrightarrow>
        isValid X t \<noteq> None
        \<and> (\<not> duration t < kScrobbleMinLength X \<longrightarrow> isValid X t = Some NoTimestamp))
   \<and> (\<forall>ts. timestamp t = Some ts \<and> ts > addMonths X (currentDateTime X) 1 \<longrightarrow>
        isValid X t \<noteq> None
        \<and> (\<not> duration t < kScrobbleMinLength X \<longrightarrow> isValid X t = Some FromTheFuture))
   \<and> (\<forall>ts. timestamp t = Some ts \<and> ts < fromString X ''2003-01-01'' \<longrightarrow>
        isValid X t \<noteq> None
        \<and> (\<not> duration t < kScrobbleMinLength X \<and> \<not> ts > addMonths X (currentDateTime X) 1 \<longrightarrow>
             isValid X t = Some FromTheDistantPast))"
proof -
  have "isValid X t = first_match (spec_rules X) t"
    by (rule isValid_first_match)
  moreover have "duration t < kScrobbleMinLength X \<longrightarrow> isValid X t = Some TooShort"
    by (simp add: isValid_def)
  moreover have "timestamp t = None \<longrightarrow>
        isValid X t \<noteq> None
        \<and> (\<not> duration t < kScrobbleMinLength X \<longrightarrow> isValid X t = Some NoTimestamp)"
    by (simp add: isValid_def)
  moreover have "\<forall>ts. timestamp t = Some ts \<and> ts > addMonths X (currentDateTime X) 1 \<longrightarrow>
        isValid X t \<noteq> None
        \<and> (\<not> duration t < kScrobbleMinLength X \<longrightarrow> isValid X t = Some FromTheFuture)"
    by (auto simp: isValid_def)
  moreover have "\<forall>ts. timestamp t = Some ts \<and> ts < fromString X ''2003-01-01'' \<longrightarrow>
        isValid X t \<noteq> None
        \<and> (\<not> duration t < kScrobbleMinLength X \<and> \<not> ts > addMonths X (currentDateTime X) 1 \<longrightarrow>
             isValid X t = Some FromTheDistantPast)"
    by (auto simp: isValid_def)
  ultimately show ?thesis by blast
qed

theorem isValid_precedence_witness:
  "duration (trackA\<lparr>duration := 10, timestamp := None\<rparr>) < kScrobbleMinLength sample_env
   \<and> isValid sample_env (trackA\<lparr>duration := 10, timestamp := None\<rparr>) = Some TooShort
   \<and> timestamp (trackA\<lparr>timestamp := None\<rparr>) = None
   \<and> isValid sample_env (trackA\<lparr>timestamp := None\<rparr>) = Some NoTimestamp
   \<and> (1300000000000::int) > addMonths sample_env (currentDateTime sample_env) 1
   \<and> isValid sample_env (trackA\<lparr>timestamp := Some 1300000000000\<rparr>) = Some FromTheFuture
   \<and> (1000000000000::int) < fromString sample_env ''2003-01-01''
   \<and> isValid sample_env (trackA\<lparr>timestamp := Some 1000000000000\<rparr>) = Some FromTheDistantPast"
  using isValid_precedence [of sample_env "trackA\<lparr>duration := 10, timestamp := None\<rparr>"]
    isValid_precedence [of sample_env "trackA\<lparr>timestamp := None\<rparr>"]
    isValid_precedence [of sample_env "trackA\<lparr>timestamp := Some 1300000000000\<rparr>"]
    isValid_precedence [of sample_env "trackA\<lparr>timestamp := Some 1000000000000\<rparr>"]
  by (simp add: sample_env_def trackA_def sample_track_def isValid_def first_match_def
      spec_rules_def)

subsection \<open>Removing\<close>

text \<open>
  Claim C1. For every cache state and every target list, the number \<open>remove\<close> returns is
  the number of tracks left in the store after the removal, \<open>tracks().size()\<close> afterwards:
  the number stored before minus the number of stored tracks that equal some target. It
  is not the number removed.
\<close>

theorem remove_returns_remaining:
  assumes "remove X toremove d w = (r, d', w')"
  shows "r = int (length (tracks d')) \<and>
         r = int (length (tracks d))
             - int (length (filter (\<lambda>t. \<exists>x\<in>set toremove. track_eq X x t) (tracks d)))"
proof -
  let ?P = "\<lambda>t. \<exists>x\<in>set toremove. track_eq X x t"
  have "length (filter ?P (m_tracks d)) + length (filter (\<lambda>t. \<not> ?P t) (m_tracks d))
        = length (m_tracks d)"
    by (rule sum_length_filter_compl)
  then show ?thesis using assms by (auto simp: remove_eq tracks_def)
qed

theorem remove_returns_remaining_witness:
  "fst (add sample_env [trackA, trackB, trackC] (sample_cache []) empty_world)
     = sample_cache [trackA, trackB, trackC]
   \<and> remove sample_env [trackB] (sample_cache [trackA, trackB, trackC]) empty_world
     = (2, sample_cache [trackA, trackC],
        write_tracks sample_env (sample_cache [trackA, trackC]) empty_world)
   \<and> (2::int) = int (length (tracks (sample_cache [trackA, trackC])))
   \<and> length (filter (\<lambda>t. \<exists>x\<in>set [trackB]. track_eq sample_env x t)
        (tracks (sample_cache [trackA, trackB, trackC]))) = 1"
proof -
  have a: "fst (add sample_env [trackA, trackB, trackC] (sample_cache []) empty_world)
     = sample_cache [trackA, trackB, trackC]"
    using sample_tracks_valid by (simp add: add_eq) (simp add: samples)
  have e: "remove sample_env [trackB] (sample_cache [trackA, trackB, trackC]) empty_world
     = (2, sample_cache [trackA, trackC],
        write_tracks sample_env (sample_cache [trackA, trackC]) empty_world)"
    by (simp add: remove_eq) (simp add: samples)
  show ?thesis
    using a e remove_returns_remaining [OF e] by (simp add: tracks_def) (simp add: samples)
qed

text \<open>
  Claim C2. \<open>remove\<close> takes a stored track out at most once, however many entries of the
  target list equal it: what is left is the stored list without the tracks that equal
  some target, every other track still there and in its place. A target list that holds
  a track twice removes exactly what the list holding it once removes.
\<close>

theorem remove_each_track_once:
  "tracks (fst (snd (remove X toremove d w)))
     = filter (\<lambda>t. \<not> (\<exists>x\<in>set toremove. track_eq X x t)) (tracks d)
   \<and> remove X (x # x # toremove) d w = remove X (x # toremove) d w
   \<and> remove X (remdups toremove) d w = remove X toremove d w"
  by (simp add: remove_eq tracks_def)

theorem remove_each_track_once_witness:
  "tracks (fst (snd (remove sample_env [trackA, trackA] (sample_cache [trackA, trackB, trackA])
      empty_world))) = [trackB]"
  using remove_each_track_once [where X = sample_env and toremove = "[trackA, trackA]"
      and d = "sample_cache [trackA, trackB, trackA]" and w = empty_world]
  by (simp add: tracks_def) (simp add: samples)

text \<open>
  Claim C8. When no entry of the target list equals any stored track, \<open>remove\<close> leaves
  \<open>tracks()\<close> as it was and returns the unchanged number of stored tracks.
\<close>

theorem remove_absent_is_noop:
  assumes "\<forall>t\<in>set (tracks d). \<forall>x\<in>set toremove. \<not> track_eq X x t"
  shows "remove X toremove d w = (int (length (tracks d)), d, write_tracks X d w)
         \<and> tracks (fst (snd (remove X toremove d w))) = tracks d"
proof -
  have "filter (\<lambda>t. \<not> (\<exists>x\<in>set toremove. track_eq X x t)) (m_tracks d) = m_tracks d"
    using assms by (auto simp: tracks_def filter_id_conv)
  then show ?thesis by (simp add: remove_eq tracks_def)
qed

theorem remove_absent_is_noop_witness:
  "\<not> track_eq sample_env trackC trackA \<and> \<not> track_eq sample_env trackC trackB
   \<and> remove sample_env [trackC] (sample_cache [trackA, trackB]) empty_world
       = (2, sample_cache [trackA, trackB],
          write_tracks sample_env (sample_cache [trackA, trackB]) empty_world)"
proof -
  have h: "\<forall>t\<in>set (tracks (sample_cache [trackA, trackB])). \<forall>x\<in>set [trackC].
             \<not> track_eq sample_env x t"
    by (simp add: tracks_def) (simp add: samples)
  show ?thesis
    using h remove_absent_is_noop [OF h, of empty_world]
    by (simp add: tracks_def) (simp add: samples)
qed

subsection \<open>Adding\<close>

text \<open>
  Claim C5. \<open>add\<close> appends to the stored list exactly the candidates that pass the
  validator and are not null, in input order; every other candidate leaves its
  diagnostic (the reason of an invalid one, a separate line for a valid null one); and
  the batch ends with exactly one save. \<open>add\<close> is a total function: it has no failing
  result.
\<close>

theorem add_appends_accepted:
  "add X candidates d w =
     (d\<lparr>m_tracks := tracks d @ filter (\<lambda>t. isValid X t = None \<and> \<not> isNull t) candidates\<rparr>,
      write_tracks X
        (d\<lparr>m_tracks := tracks d @ filter (\<lambda>t. isValid X t = None \<and> \<not> isNull t) candidates\<rparr>)
        (w\<lparr>trace := trace w @ diagnostics X candidates\<rparr>))
   \<and> length (filter is_save (trace (snd (add X candidates d w))))
       = Suc (length (filter is_save (trace w)))"
  by (simp add: add_def foldl_add_track tracks_def write_tracks_trace diagnostics_no_save)

theorem add_appends_accepted_witness:
  "isValid sample_env (trackB\<lparr>title := []\<rparr>) = Some TrackNameMissing
   \<and> add sample_env [trackA, trackB\<lparr>title := []\<rparr>, trackC\<lparr>isNull := True\<rparr>, trackB]
        (sample_cache []) empty_world
       = (sample_cache [trackA, trackB],
          \<lparr>files = [''/data/alice_subs_cache.xml'' \<mapsto> fileAB],
           trace = [QWarning TrackNameMissing, QDebug ''Will not cache an empty track'',
                    FileWritten ''/data/alice_subs_cache.xml'' fileAB]\<rparr>)"
proof -
  have v: "isValid sample_env (trackB\<lparr>title := []\<rparr>) = Some TrackNameMissing"
    "isValid sample_env (trackC\<lparr>isNull := True\<rparr>) = None"
    by (simp_all add: isValid_def samples toLower_def toLower_char_def)
  show ?thesis
    using v sample_tracks_valid
      add_appends_accepted [where X = sample_env
        and candidates = "[trackA, trackB\<lparr>title := []\<rparr>, trackC\<lparr>isNull := True\<rparr>, trackB]"
        and d = "sample_cache []" and w = empty_world]
    by (simp add: tracks_def diagnostics_def write_tracks_def Let_def submissions_eq samples)
qed

subsection \<open>Persistence\<close>

text \<open>
  Claim C4. After a save the file at \<open>path()\<close> exists exactly when the track list is not
  empty: saving an empty list removes the file (and changes nothing else, whether or not
  the file was there), and saving any other list puts there the declaration followed by
  the document whose root "submissions" has one child per stored track, in order.
\<close>

theorem save_file_iff_nonempty:
  "(files (write_tracks X d w) (path d) \<noteq> None) = (tracks d \<noteq> [])
   \<and> (tracks d = [] \<longrightarrow> files (write_tracks X d w) = (files w)(path d := None))
   \<and> (tracks d \<noteq> [] \<longrightarrow>
        files (write_tracks X d w)
          = (files w)(path d \<mapsto> xml_declaration @ toString X (submissions X (tracks d)) 2))
   \<and> nodeName (submissions X (tracks d)) = ''submissions''
   \<and> childNodes (submissions X (tracks d)) = map (toDomElement X) (tracks d)"
  by (simp add: write_tracks_files path_def tracks_def submissions_eq)

theorem save_file_iff_nonempty_witness:
  "tracks (sample_cache []) = []
   \<and> files (write_tracks sample_env (sample_cache [])
        \<lparr>files = [''/data/alice_subs_cache.xml'' \<mapsto> ''old''], trace = []\<rparr>)
        = Map.empty
   \<and> tracks (sample_cache [trackA, trackB]) \<noteq> []
   \<and> files (write_tracks sample_env (sample_cache [trackA, trackB]) empty_world)
        = [''/data/alice_subs_cache.xml'' \<mapsto> fileAB]
   \<and> length (childNodes (submissions sample_env (tracks (sample_cache [trackA, trackB])))) = 2"
  using save_file_iff_nonempty [where X = sample_env and d = "sample_cache []"
      and w = "\<lparr>files = [''/data/alice_subs_cache.xml'' \<mapsto> ''old''], trace = []\<rparr>"]
    save_file_iff_nonempty [where X = sample_env and d = "sample_cache [trackA, trackB]"
      and w = empty_world]
  by (simp add: tracks_def path_def submissions_eq samples)

text \<open>
  Claim C6. Provided the XML parser reads the written text back as the written document,
  and the track serialiser gives every stored track an element named "track" that
  deserialises to the same track: saving a track list and loading the file again gives
  back the same tracks in the same order; and when the list is that of a cache built for
  a user name and then given by \<open>add\<close> tracks that pass the validator and are not in the
  null state, the cache built afresh for the same name holds the tracks it held before
  followed by the added ones, in order.
\<close>

theorem save_load_round_trip:
  assumes parse: "tracks e \<noteq> [] \<Longrightarrow>
      snd (setContent X (xml_declaration @ toString X (submissions X (tracks e)) 2))
        = Some (submissions X (tracks e))"
    and rt: "\<forall>t\<in>set (tracks e). fromDomElement X (toDomElement X t) = t"
    and tag: "\<forall>t\<in>set (tracks e). nodeName (toDomElement X t) = ''track''"
  shows "tracks (read X e (write_tracks X e w1)) = tracks e
         \<and> (ScrobbleCache X u w0 = Inr d
              \<and> (\<forall>t\<in>set ts. isValid X t = None \<and> \<not> isNull t)
              \<and> add X ts d w = (e, w') \<longrightarrow>
            tracks e = tracks d @ ts \<and> ScrobbleCache X u w' = Inr e)"
proof -
  have a: "read X e (write_tracks X e w2) = e" for w2
    using assms unfolding tracks_def by (rule read_write_tracks)
  have b: "tracks e = tracks d @ ts \<and> ScrobbleCache X u w' = Inr e"
    if made: "ScrobbleCache X u w0 = Inr d"
      and valid: "\<forall>t\<in>set ts. isValid X t = None \<and> \<not> isNull t"
      and added: "add X ts d w = (e, w')"
  proof -
    have "filter (\<lambda>t. isValid X t = None \<and> \<not> isNull t) ts = ts"
      using valid by (simp add: filter_id_conv)
    then have e: "e = d\<lparr>m_tracks := m_tracks d @ ts\<rparr>"
      and w': "w' = write_tracks X e (w\<lparr>trace := trace w @ diagnostics X ts\<rparr>)"
      using added by (auto simp: add_eq)
    have u: "u \<noteq> []" and d: "d = read X \<lparr>m_username = u,
        m_path = runtimeData_filePath X (u @ ''_subs_cache.xml''), m_tracks = []\<rparr> w0"
      using made by (auto simp: ScrobbleCache_def split: if_splits)
    have "m_path d = runtimeData_filePath X (u @ ''_subs_cache.xml'')" "m_username d = u"
      by (simp_all add: d read_fields)
    then have fresh: "\<lparr>m_username = u,
        m_path = runtimeData_filePath X (u @ ''_subs_cache.xml''), m_tracks = []\<rparr>
        = e\<lparr>m_tracks := []\<rparr>"
      by (simp add: e)
    have "read X (e\<lparr>m_tracks := []\<rparr>) w' = read X e w'"
      by (simp add: read_def Let_def)
    then have "ScrobbleCache X u w' = Inr (read X e w')"
      using u fresh by (simp add: ScrobbleCache_def)
    then show ?thesis using a w' e by (simp add: tracks_def)
  qed
  show ?thesis using a [of w1] b by simp
qed

theorem save_load_round_trip_witness:
  "ScrobbleCache sample_env ''alice'' empty_world = Inr (sample_cache [])
   \<and> isValid sample_env trackA = None \<and> \<not> isNull trackA
   \<and> isValid sample_env trackB = None \<and> \<not> isNull trackB
   \<and> snd (setContent sample_env fileAB) = Some (submissions sample_env [trackA, trackB])
   \<and> fst (add sample_env [trackA, trackB] (sample_cache []) empty_world)
       = sample_cache [trackA, trackB]
   \<and> files (snd (add sample_env [trackA, trackB] (sample_cache []) empty_world))
       = [''/data/alice_subs_cache.xml'' \<mapsto> fileAB]
   \<and> ScrobbleCache sample_env ''alice''
        (snd (add sample_env [trackA, trackB] (sample_cache []) empty_world))
       = Inr (sample_cache [trackA, trackB])
   \<and> tracks (sample_cache [trackA, trackB]) = [trackA, trackB]"
proof -
  let ?X = "sample_env"
  let ?d = "sample_cache []"
  let ?d' = "fst (add ?X [trackA, trackB] ?d empty_world)"
  let ?w' = "snd (add ?X [trackA, trackB] ?d empty_world)"
  have valid: "isValid ?X trackA = None \<and> isValid ?X trackB = None"
    using sample_tracks_valid by simp
  have nonnull: "\<not> isNull trackA \<and> \<not> isNull trackB"
    by (simp add: samples)
  have d': "?d' = sample_cache [trackA, trackB]"
    using valid nonnull by (simp add: add_eq) (simp add: samples)
  have written: "files ?w' = [''/data/alice_subs_cache.xml'' \<mapsto> fileAB]"
    using valid nonnull by (simp add: add_eq write_tracks_files submissions_eq samples)
  have made: "ScrobbleCache ?X ''alice'' empty_world = Inr ?d"
    by (simp add: ScrobbleCache_def read_def QDomDocument_setContent_def samples)
  have read_back: "snd (setContent ?X fileAB) = Some (submissions ?X [trackA, trackB])"
    by (simp add: submissions_eq samples)
  have parse: "snd (setContent ?X (xml_declaration @ toString ?X (submissions ?X (tracks ?d')) 2))
                 = Some (submissions ?X (tracks ?d'))"
    unfolding d' by (simp add: tracks_def submissions_eq samples)
  have rt: "\<forall>t\<in>set (tracks ?d'). fromDomElement ?X (toDomElement ?X t) = t"
    unfolding d' by (simp add: tracks_def samples)
  have tag: "\<forall>t\<in>set (tracks ?d'). nodeName (toDomElement ?X t) = ''track''"
    unfolding d' by (simp add: tracks_def samples)
  have added: "add ?X [trackA, trackB] ?d empty_world = (?d', ?w')"
    by simp
  have ok: "\<forall>t\<in>set [trackA, trackB]. isValid ?X t = None \<and> \<not> isNull t"
    using valid nonnull by simp
  have "tracks ?d' = tracks ?d @ [trackA, trackB] \<and> ScrobbleCache ?X ''alice'' ?w' = Inr ?d'"
    using save_load_round_trip [OF parse rt tag, where u = "''alice''"
        and ?w0.0 = empty_world and d = ?d and ts = "[trackA, trackB]"
        and w = empty_world and w' = "?w'"] made ok added
    by blast
  then have fresh: "ScrobbleCache ?X ''alice'' ?w' = Inr (sample_cache [trackA, trackB])"
    using d' by simp
  have held: "tracks (sample_cache [trackA, trackB]) = [trackA, trackB]"
    by (simp add: tracks_def sample_cache_def)
  show ?thesis
    using valid nonnull made d' written read_back fresh held by blast
qed

text \<open>
  Each part of the statement above is needed; the claim without it fails at a concrete
  input.
  \<^item> Passing the validator is not enough: \<open>add\<close> has a branch of its own for a valid track
    in the null state and does not store it, so the cache built afresh is empty.
  \<^item> A cache that already holds \<open>trackA\<close> and is given \<open>trackB\<close> comes back holding both,
    not the added sequence alone.
  \<^item> With a parser that rejects the written text, with a serialiser whose element is not
    named "track", and with a deserialiser that does not give back the serialised
    track, a valid track that is not null is stored and written, and the cache built
    afresh does not hold it.
\<close>

theorem round_trip_counterexample:
  "isValid sample_env (trackA\<lparr>isNull := True\<rparr>) = None
   \<and> ScrobbleCache sample_env ''alice''
        (snd (add sample_env [trackA\<lparr>isNull := True\<rparr>] (sample_cache []) empty_world))
       = Inr (sample_cache [])
   \<and> tracks (sample_cache []) \<noteq> [trackA\<lparr>isNull := True\<rparr>]
   \<and> isValid sample_env trackB = None
   \<and> ScrobbleCache sample_env ''alice''
        (snd (add sample_env [trackB] (sample_cache [trackA]) empty_world))
       = Inr (sample_cache [trackA, trackB])
   \<and> tracks (sample_cache [trackA, trackB]) \<noteq> [trackB]
   \<and> isValid sample_env_rejecting trackA = None \<and> \<not> isNull trackA
   \<and> fst (add sample_env_rejecting [trackA] (sample_cache []) empty_world)
       = sample_cache [trackA]
   \<and> ScrobbleCache sample_env_rejecting ''alice''
        (snd (add sample_env_rejecting [trackA] (sample_cache []) empty_world))
       = Inr (sample_cache [])
   \<and> isValid sample_env_song trackA = None
   \<and> ScrobbleCache sample_env_song ''alice''
        (snd (add sample_env_song [trackA] (sample_cache []) empty_world))
       = Inr (sample_cache [])
   \<and> isValid sample_env_lossy trackA = None
   \<and> ScrobbleCache sample_env_lossy ''alice''
        (snd (add sample_env_lossy [trackA] (sample_cache []) empty_world))
       = Inr (sample_cache [trackC])
   \<and> tracks (sample_cache []) \<noteq> [trackA]
   \<and> tracks (sample_cache [trackC]) \<noteq> [trackA]"
proof -
  have v: "isValid sample_env (trackA\<lparr>isNull := True\<rparr>) = None"
    "isValid sample_env trackB = None"
    "isValid sample_env_rejecting trackA = None"
    "isValid sample_env_song trackA = None"
    "isValid sample_env_lossy trackA = None"
    by (simp_all add: isValid_def samples toLower_def toLower_char_def)
  have null: "ScrobbleCache sample_env ''alice''
        (snd (add sample_env [trackA\<lparr>isNull := True\<rparr>] (sample_cache []) empty_world))
       = Inr (sample_cache [])"
    using v by (simp add: add_eq ScrobbleCache_def read_def QDomDocument_setContent_def
        write_tracks_files samples)
  have held: "ScrobbleCache sample_env ''alice''
        (snd (add sample_env [trackB] (sample_cache [trackA]) empty_world))
       = Inr (sample_cache [trackA, trackB])"
    using v by (simp add: add_eq ScrobbleCache_def read_def QDomDocument_setContent_def
        write_tracks_files submissions_eq read_nodes_eq samples)
  have rejecting: "fst (add sample_env_rejecting [trackA] (sample_cache []) empty_world)
       = sample_cache [trackA]"
    "ScrobbleCache sample_env_rejecting ''alice''
        (snd (add sample_env_rejecting [trackA] (sample_cache []) empty_world))
       = Inr (sample_cache [])"
    using v by (simp_all add: add_eq ScrobbleCache_def read_def QDomDocument_setContent_def
        write_tracks_files submissions_eq read_nodes_eq samples)
  have song: "ScrobbleCache sample_env_song ''alice''
        (snd (add sample_env_song [trackA] (sample_cache []) empty_world))
       = Inr (sample_cache [])"
    using v by (simp add: add_eq ScrobbleCache_def read_def QDomDocument_setContent_def
        write_tracks_files submissions_eq read_nodes_eq samples)
  have lossy: "ScrobbleCache sample_env_lossy ''alice''
        (snd (add sample_env_lossy [trackA] (sample_cache []) empty_world))
       = Inr (sample_cache [trackC])"
    using v by (simp add: add_eq ScrobbleCache_def read_def QDomDocument_setContent_def
        write_tracks_files submissions_eq read_nodes_eq samples)
  have differ: "tracks (sample_cache []) \<noteq> [trackA\<lparr>isNull := True\<rparr>]"
    "tracks (sample_cache [trackA, trackB]) \<noteq> [trackB]"
    "\<not> isNull trackA"
    "tracks (sample_cache []) \<noteq> [trackA]"
    "tracks (sample_cache [trackC]) \<noteq> [trackA]"
    by (simp_all add: tracks_def samples)
  show ?thesis
    using v null held rejecting song lossy differ by simp
qed




subsection \<open>Construction\<close>



subsection \<open>Every mutation saves\<close>

text \<open>
  Claim C10. \<open>add\<close> and \<open>remove\<close> always end with a save of the resulting list, also
  when they change nothing: \<open>add\<close> of no candidate or of rejected and null candidates
  only, and \<open>remove\<close> without a matching target, leave \<open>tracks()\<close> as it was and still
  write the file again, or remove it when the list is empty.
\<close>

theorem every_mutation_saves:
  "snd (add X ts d w)
     = write_tracks X (fst (add X ts d w)) (w\<lparr>trace := trace w @ diagnostics X ts\<rparr>)
   \<and> snd (snd (remove X toremove d w)) = write_tracks X (fst (snd (remove X toremove d w))) w
   \<and> add X [] d w = (d, write_tracks X d w)
   \<and> ((\<forall>t\<in>set ts. isValid X t \<noteq> None \<or> isNull t) \<longrightarrow>
        tracks (fst (add X ts d w)) = tracks d
        \<and> files (snd (add X ts d w)) = files (write_tracks X d w))
   \<and> ((\<forall>t\<in>set (tracks d). \<forall>x\<in>set toremove. \<not> track_eq X x t) \<longrightarrow>
        tracks (fst (snd (remove X toremove d w))) = tracks d
        \<and> snd (snd (remove X toremove d w)) = write_tracks X d w)
   \<and> files (write_tracks X d w) (path d)
       = (if tracks d = [] then None
          else Some (xml_declaration @ toString X (submissions X (tracks d)) 2))
   \<and> trace (write_tracks X d w)
       = trace w @ [if tracks d = [] then FileRemoved (path d)
                    else FileWritten (path d)
                           (xml_declaration @ toString X (submissions X (tracks d)) 2)]"
proof -
  have a: "(\<forall>t\<in>set ts. isValid X t \<noteq> None \<or> isNull t) \<longrightarrow>
           filter (\<lambda>t. isValid X t = None \<and> \<not> isNull t) ts = []"
    by (auto simp: filter_empty_conv)
  have r: "(\<forall>t\<in>set (tracks d). \<forall>x\<in>set toremove. \<not> track_eq X x t) \<longrightarrow>
           filter (\<lambda>t. \<not> (\<exists>x\<in>set toremove. track_eq X x t)) (m_tracks d) = m_tracks d"
    by (auto simp: tracks_def filter_id_conv)
  show ?thesis
    using a r
    by (simp add: add_eq remove_eq diagnostics_Nil write_tracks_files tracks_def path_def)
      (simp add: write_tracks_def Let_def)
qed

theorem every_mutation_saves_witness:
  "isValid sample_env (trackB\<lparr>title := []\<rparr>) \<noteq> None
   \<and> add sample_env [trackB\<lparr>title := []\<rparr>] (sample_cache [trackA]) empty_world
       = (sample_cache [trackA],
          \<lparr>files = [''/data/alice_subs_cache.xml'' \<mapsto> fileA],
           trace = [QWarning TrackNameMissing,
                    FileWritten ''/data/alice_subs_cache.xml'' fileA]\<rparr>)
   \<and> \<not> track_eq sample_env trackC trackA
   \<and> snd (snd (remove sample_env [trackC] (sample_cache [trackA]) empty_world))
       = \<lparr>files = [''/data/alice_subs_cache.xml'' \<mapsto> fileA],
          trace = [FileWritten ''/data/alice_subs_cache.xml'' fileA]\<rparr>
   \<and> add sample_env [] (sample_cache []) empty_world
       = (sample_cache [],
          \<lparr>files = Map.empty, trace = [FileRemoved ''/data/alice_subs_cache.xml'']\<rparr>)"
proof -
  have v: "isValid sample_env (trackB\<lparr>title := []\<rparr>) = Some TrackNameMissing"
    by (simp add: isValid_def samples toLower_def toLower_char_def)
  have h: "\<forall>t\<in>set (tracks (sample_cache [trackA])). \<forall>x\<in>set [trackC].
             \<not> track_eq sample_env x t"
    by (simp add: tracks_def) (simp add: samples)
  show ?thesis
    using v h
      every_mutation_saves [where X = sample_env and ts = "[trackB\<lparr>title := []\<rparr>]"
        and d = "sample_cache [trackA]" and w = empty_world and toremove = "[trackC]"]
      every_mutation_saves [where X = sample_env and ts = "[]" and d = "sample_cache []"
        and w = empty_world and toremove = "[]"]
    by (simp add: add_eq remove_eq tracks_def path_def diagnostics_def write_tracks_def Let_def
        submissions_eq samples)
qed

end
